theory Spec2Isabelle
  imports Main
begin

section \<open>JavaScript values, objects and errors\<close>

text \<open>
  The module is the compiled file \<^verbatim>\<open>dist-js/index.cjs\<close>. Values are the JavaScript
  values the module handles: \<^verbatim>\<open>undefined\<close>, \<^verbatim>\<open>null\<close>, numbers, strings and references to
  objects of the store. A number is an integer, as the wire levels are: \<open>Num i\<close> stands
  for the integers a JavaScript number holds exactly and prints in plain decimal
  notation. Strict equality \<^verbatim>\<open>===\<close> on these values is HOL equality. A string is a list of 8-bit characters: both
  escape introducers of the module's pattern (U+001B and U+009B) and every character
  its classes name are below 256.
\<close>

datatype jsval = Undefined | Null | Num int | Str string | Ref nat

type_synonym jsobj = "string \<rightharpoonup> jsval"

text \<open>A thrown value or the reason of a rejected promise.\<close>

datatype js_error = Error string | TypeError string | Rejected jsval

text \<open>Reading a property of a plain object: \<^verbatim>\<open>undefined\<close> when the object has no such key.\<close>

definition get_prop :: "jsobj \<Rightarrow> string \<Rightarrow> jsval" where
  "get_prop obj k = (case obj k of None \<Rightarrow> Undefined | Some v \<Rightarrow> v)"

fun decimal :: "nat \<Rightarrow> string" where
  "decimal n =
     (if n < 10 then [char_of (48 + n)]
      else decimal (n div 10) @ [char_of (48 + n mod 10)])"

text \<open>\<^verbatim>\<open>ToString\<close>, as a template literal and a property key apply it.\<close>

definition to_string :: "jsval \<Rightarrow> string" where
  "to_string v =
     (case v of
        Undefined \<Rightarrow> ''undefined''
      | Null \<Rightarrow> ''null''
      | Num i \<Rightarrow> (if i < 0 then CHR ''-'' # decimal (nat (- i)) else decimal (nat i))
      | Str s \<Rightarrow> s
      | Ref r \<Rightarrow> ''[object Object]'')"

section \<open>The world the module acts on\<close>

text \<open>
  The payload of the outbound request \<^verbatim>\<open>plugin:log|log\<close>, field by field as the object
  literal in \<^verbatim>\<open>log\<close> builds it. The field \<^verbatim>\<open>file\<close> is written \<open>file'\<close>: the plain name is
  reserved in Isabelle.
\<close>

record LogRecord =
  level :: jsval
  message :: string
  location :: jsval
  file' :: jsval
  line :: jsval
  keyValues :: jsval

datatype channel = ConsoleLog | ConsoleDebug | ConsoleInfo | ConsoleWarn | ConsoleError

text \<open>
  The state: the store of objects (the caller's options object and its \<^verbatim>\<open>keyValues\<close>
  object live there), the requests handed to \<^verbatim>\<open>invoke\<close> (oldest first), the lines written
  to the console (oldest first), and the names of the event streams the console handler
  is subscribed to.
\<close>

record world =
  heap :: "nat \<rightharpoonup> jsobj"
  sent :: "(string \<times> LogRecord) list"
  console :: "(channel \<times> string) list"
  listeners :: "string list"

text \<open>
  An awaited computation: it ends in a rejection (\<open>Inl\<close>) or a value (\<open>Inr\<close>), and leaves
  a world behind.
\<close>

type_synonym 'a async = "world \<Rightarrow> (js_error + 'a) \<times> world"

definition resolve :: "'a \<Rightarrow> 'a async" where
  "resolve v w = (Inr v, w)"

definition reject :: "js_error \<Rightarrow> 'a async" where
  "reject e w = (Inl e, w)"

text \<open>\<^verbatim>\<open>await m\<close> followed by the rest of the function body.\<close>

definition await :: "'a async \<Rightarrow> ('a \<Rightarrow> 'b async) \<Rightarrow> 'b async" where
  "await m k w = (case m w of (Inl e, w') \<Rightarrow> (Inl e, w') | (Inr v, w') \<Rightarrow> k v w')"

text \<open>
  The host behind the transport: what it answers to a command and its payload. It is a
  parameter of the model.
\<close>

type_synonym host = "string \<Rightarrow> LogRecord \<Rightarrow> world \<Rightarrow> js_error + jsval"

text \<open>
  Modelled from the spec: \<^verbatim>\<open>invoke\<close> of the package \<^verbatim>\<open>@tauri-apps/api/primitives\<close>, which
  is not part of this repository. One call is one outbound request; its promise settles
  with the host's answer (section 6: "response: success/failure only").
\<close>

definition invoke :: "host \<Rightarrow> string \<Rightarrow> LogRecord \<Rightarrow> jsval async" where
  "invoke h cmd args w = (h cmd args w, w\<lparr>sent := sent w @ [(cmd, args)]\<rparr>)"

section \<open>The enumeration \<^verbatim>\<open>LogLevel\<close>\<close>

text \<open>
  One statement \<^verbatim>\<open>LogLevel[LogLevel["Trace"] = 1] = "Trace"\<close> of the compiled enumeration:
  the inner assignment stores the number under the name, the outer one the name under
  the number's key.
\<close>

definition enum_member :: "string \<Rightarrow> int \<Rightarrow> jsobj \<Rightarrow> jsobj" where
  "enum_member name v obj = (obj(name \<mapsto> Num v))(to_string (Num v) \<mapsto> Str name)"

definition LogLevel :: jsobj where
  "LogLevel =
     enum_member ''Error'' 5
       (enum_member ''Warn'' 4
         (enum_member ''Info'' 3
           (enum_member ''Debug'' 2
             (enum_member ''Trace'' 1 Map.empty))))"

section \<open>String helpers of the platform\<close>

text \<open>
  \<^verbatim>\<open>s.split(sep)\<close> for a separator of one character (\<^verbatim>\<open>"\n"\<close> and \<^verbatim>\<open>"@"\<close> in the module):
  the pieces between the separators, the empty string giving one empty piece. \<open>acc\<close> is
  the piece being read, reversed.
\<close>

fun split_acc :: "char \<Rightarrow> string \<Rightarrow> string \<Rightarrow> string list" where
  "split_acc sep acc [] = [rev acc]"
| "split_acc sep acc (c # cs) =
     (if c = sep then rev acc # split_acc sep [] cs else split_acc sep (c # acc) cs)"

definition split_js :: "char \<Rightarrow> string \<Rightarrow> string list" where
  "split_js sep s = split_acc sep [] s"

text \<open>\<^verbatim>\<open>xs.join(sep)\<close>.\<close>

fun join_js :: "string \<Rightarrow> string list \<Rightarrow> string" where
  "join_js sep [] = []"
| "join_js sep [x] = x"
| "join_js sep (x # y # ys) = x @ sep @ join_js sep (y # ys)"

text \<open>
  \<^verbatim>\<open>xs.filter(p)\<close> for a callback that may throw: the first exception ends the call.
\<close>

fun filter_js :: "('a \<Rightarrow> js_error + bool) \<Rightarrow> 'a list \<Rightarrow> js_error + 'a list" where
  "filter_js p [] = Inr []"
| "filter_js p (x # xs) =
     (case p x of
        Inl e \<Rightarrow> Inl e
      | Inr b \<Rightarrow>
          (case filter_js p xs of
             Inl e \<Rightarrow> Inl e
           | Inr ys \<Rightarrow> Inr (if b then x # ys else ys)))"

section \<open>The log emitter\<close>

text \<open>
  \<^verbatim>\<open>const traces = new Error().stack?.split("\n").map((line) => line.split("@"))\<close>.
  The captured stack is the platform's: a string, or \<^verbatim>\<open>undefined\<close> (\<open>None\<close>) where the
  platform gives none. It is an input of the model.
\<close>

definition traces :: "string option \<Rightarrow> string list list option" where
  "traces stack =
     (case stack of
        None \<Rightarrow> None
      | Some s \<Rightarrow> Some (map (split_js CHR ''@'') (split_js (CHR 0x0A) s)))"

text \<open>
  The callback \<^verbatim>\<open>([name, location]) => name.length > 0 && location !== "[native code]"\<close>.
  Destructuring reads the elements 0 and 1 of the frame; an absent element is
  \<^verbatim>\<open>undefined\<close>, and \<^verbatim>\<open>name.length\<close> on \<^verbatim>\<open>undefined\<close> throws a TypeError.
\<close>

definition usable_frame :: "string list \<Rightarrow> js_error + bool" where
  "usable_frame fr =
     (case fr of
        [] \<Rightarrow> Inl (TypeError ''undefined is not an object (evaluating name.length)'')
      | name # rest \<Rightarrow>
          Inr (0 < length name \<and>
               (case rest of [] \<Rightarrow> True | loc # _ \<Rightarrow> loc \<noteq> ''[native code]'')))"

text \<open>\<^verbatim>\<open>const filtered = traces?.filter(...)\<close>.\<close>

definition filtered :: "string option \<Rightarrow> js_error + string list list option" where
  "filtered stack =
     (case traces stack of
        None \<Rightarrow> Inr None
      | Some trs \<Rightarrow>
          (case filter_js usable_frame trs of Inl e \<Rightarrow> Inl e | Inr fs \<Rightarrow> Inr (Some fs)))"

text \<open>
  \<^verbatim>\<open>let location = filtered?.[0]?.filter((v) => v.length > 0).join("@")\<close>, then the
  replacement of the text \<^verbatim>\<open>"Error"\<close> by \<^verbatim>\<open>"webview::unknown"\<close>.
\<close>

definition derive_location :: "string list list option \<Rightarrow> jsval" where
  "derive_location flt =
     (let loc =
        (case flt of
           None \<Rightarrow> Undefined
         | Some [] \<Rightarrow> Undefined
         | Some (fr # _) \<Rightarrow> Str (join_js ''@'' (filter (\<lambda>v. 0 < length v) fr)))
      in if loc = Str ''Error'' then Str ''webview::unknown'' else loc)"

text \<open>
  \<^verbatim>\<open>options ?? {}\<close>, as the object the destructuring reads: the empty object for
  \<^verbatim>\<open>undefined\<close> and \<^verbatim>\<open>null\<close>, the object of the store for a reference. A number or a
  string has none of the three properties read, and neither has a reference to no
  object of the store.
\<close>

definition options_object :: "(nat \<rightharpoonup> jsobj) \<Rightarrow> jsval \<Rightarrow> jsobj" where
  "options_object h options =
     (case options of
        Ref r \<Rightarrow> (case h r of None \<Rightarrow> Map.empty | Some obj \<Rightarrow> obj)
      | _ \<Rightarrow> Map.empty)"

text \<open>The request \<^verbatim>\<open>log\<close> passes to \<^verbatim>\<open>invoke\<close>.\<close>

definition log_request ::
  "string list list option \<Rightarrow> jsval \<Rightarrow> string \<Rightarrow> jsobj \<Rightarrow> LogRecord" where
  "log_request flt lvl msg obj =
     \<lparr>level = lvl, message = msg, location = derive_location flt,
      file' = get_prop obj ''file'', line = get_prop obj ''line'',
      keyValues = get_prop obj ''keyValues''\<rparr>"

definition log :: "host \<Rightarrow> string option \<Rightarrow> jsval \<Rightarrow> string \<Rightarrow> jsval \<Rightarrow> jsval async" where
  "log h stack lvl msg options w =
     (case filtered stack of
        Inl e \<Rightarrow> reject e w
      | Inr flt \<Rightarrow>
          await (invoke h ''plugin:log|log''
                   (log_request flt lvl msg (options_object (heap w) options)))
            (\<lambda>_. resolve Undefined) w)"

definition error :: "host \<Rightarrow> string option \<Rightarrow> string \<Rightarrow> jsval \<Rightarrow> jsval async" where
  "error h stack msg options =
     await (log h stack (get_prop LogLevel ''Error'') msg options) (\<lambda>_. resolve Undefined)"

definition warn :: "host \<Rightarrow> string option \<Rightarrow> string \<Rightarrow> jsval \<Rightarrow> jsval async" where
  "warn h stack msg options =
     await (log h stack (get_prop LogLevel ''Warn'') msg options) (\<lambda>_. resolve Undefined)"

definition info :: "host \<Rightarrow> string option \<Rightarrow> string \<Rightarrow> jsval \<Rightarrow> jsval async" where
  "info h stack msg options =
     await (log h stack (get_prop LogLevel ''Info'') msg options) (\<lambda>_. resolve Undefined)"

definition debug :: "host \<Rightarrow> string option \<Rightarrow> string \<Rightarrow> jsval \<Rightarrow> jsval async" where
  "debug h stack msg options =
     await (log h stack (get_prop LogLevel ''Debug'') msg options) (\<lambda>_. resolve Undefined)"

definition trace :: "host \<Rightarrow> string option \<Rightarrow> string \<Rightarrow> jsval \<Rightarrow> jsval async" where
  "trace h stack msg options =
     await (log h stack (get_prop LogLevel ''Trace'') msg options) (\<lambda>_. resolve Undefined)"

section \<open>Regular expressions of the platform\<close>

text \<open>
  The pattern language the module's one pattern uses: a bracket expression (single
  characters and ranges, compared by code), concatenation, and the greedy quantifier
  \<^verbatim>\<open>{min,max}\<close>, of which \<^verbatim>\<open>*\<close> is \<^verbatim>\<open>{0,}\<close> (no upper bound: \<open>None\<close>) and \<^verbatim>\<open>?\<close> is
  \<^verbatim>\<open>{0,1}\<close>. A non-capturing group is the pattern inside it.
\<close>

datatype class_item = Single char | Range char char

datatype regex =
    Class "class_item list"
  | Seq regex regex
  | Repeat nat "nat option" regex

fun in_item :: "class_item \<Rightarrow> char \<Rightarrow> bool" where
  "in_item (Single a) c = (c = a)"
| "in_item (Range lo hi) c = ((of_char lo :: nat) \<le> of_char c \<and> (of_char c :: nat) \<le> of_char hi)"

definition in_class :: "class_item list \<Rightarrow> char \<Rightarrow> bool" where
  "in_class items c = list_ex (\<lambda>i. in_item i c) items"

fun rsize :: "regex \<Rightarrow> nat" where
  "rsize (Class items) = 1"
| "rsize (Seq a b) = rsize a + rsize b + 1"
| "rsize (Repeat mn mx a) = rsize a + 1"

fun top_min :: "regex \<Rightarrow> nat" where
  "top_min (Repeat mn mx a) = mn"
| "top_min r = 0"

text \<open>
  The backtracking matcher of the language standard, as the list of its successes:
  \<open>ends r s\<close> are the rests of \<open>s\<close> after each way \<open>r\<close> can match a prefix of \<open>s\<close>, in the
  order in which backtracking tries them, so the match the platform reports is the
  first. The quantifier follows the standard's RepeatMatcher: at \<open>max = 0\<close> it
  continues; otherwise it tries one more iteration first (greedy), where an iteration
  that consumes nothing at \<open>min = 0\<close> fails, and continues without it only when
  \<open>min = 0\<close>.
\<close>

function ends :: "regex \<Rightarrow> string \<Rightarrow> string list" where
  "ends (Class items) s =
     (case s of [] \<Rightarrow> [] | c # cs \<Rightarrow> if in_class items c then [cs] else [])"
| "ends (Seq a b) s = concat (map (\<lambda>s'. ends b s') (ends a s))"
| "ends (Repeat mn mx a) s =
     (if mx = Some 0 then [s]
      else concat (map (\<lambda>s'. if mn = 0 \<and> \<not> length s' < length s then []
                             else ends (Repeat (mn - 1) (map_option (\<lambda>n. n - 1) mx) a) s')
                       (ends a s))
           @ (if mn = 0 then [s] else []))"
  by pat_completeness auto
termination
  by (relation "inv_image (less_than <*lex*> less_than <*lex*> less_than)
                  (\<lambda>(r, s). (rsize r, top_min r, length s))") auto

text \<open>
  The match of \<open>r\<close> at the start of \<open>s\<close>, as the platform reports it: the rest of \<open>s\<close>
  after the first success of the backtracking, \<open>None\<close> when there is none.
\<close>

definition match_at :: "regex \<Rightarrow> string \<Rightarrow> string option" where
  "match_at r s = (case ends r s of [] \<Rightarrow> None | t # _ \<Rightarrow> Some t)"

text \<open>
  \<^verbatim>\<open>s.replace(r, rep)\<close> for a pattern with the flag \<^verbatim>\<open>g\<close> and a replacement text without
  \<^verbatim>\<open>$\<close>: the matches are searched from left to right, each search starting where the last
  match ended, one character further after an empty match; a character at which the
  pattern does not match is kept.
\<close>

fun replace_all :: "regex \<Rightarrow> string \<Rightarrow> string \<Rightarrow> string" where
  "replace_all r rep s =
     (case match_at r s of
        None \<Rightarrow> (case s of [] \<Rightarrow> [] | c # cs \<Rightarrow> c # replace_all r rep cs)
      | Some t \<Rightarrow>
          if length t < length s then rep @ replace_all r rep t
          else rep @ (case s of [] \<Rightarrow> [] | c # cs \<Rightarrow> c # replace_all r rep cs))"

section \<open>The console attacher\<close>

text \<open>
  The pattern
  \<^verbatim>\<open>/[\u001b\u009b][[()#;?]*(?:[0-9]{1,4}(?:;[0-9]{0,4})*)?[0-9A-ORZcf-nqry=><]/g\<close>,
  piece by piece: \<^verbatim>\<open>[\u001b\u009b]\<close>, \<^verbatim>\<open>[[()#;?]*\<close>, \<^verbatim>\<open>[0-9]\<close>, \<^verbatim>\<open>(?:;[0-9]{0,4})*\<close>,
  \<^verbatim>\<open>[0-9]{1,4}(?:;[0-9]{0,4})*\<close>, the optional group of the latter, and
  \<^verbatim>\<open>[0-9A-ORZcf-nqry=><]\<close>.
\<close>

definition introducer :: regex where
  "introducer = Class [Single (CHR 0x1B), Single (CHR 0x9B)]"

definition intermediates :: regex where
  "intermediates =
     Repeat 0 None
       (Class [Single CHR ''['', Single CHR ''('', Single CHR '')'', Single CHR ''#'',
               Single CHR '';'', Single CHR ''?''])"

definition digit_class :: regex where
  "digit_class = Class [Range CHR ''0'' CHR ''9'']"

definition more_numbers :: regex where
  "more_numbers = Repeat 0 None (Seq (Class [Single CHR '';'']) (Repeat 0 (Some 4) digit_class))"

definition numbers :: regex where
  "numbers = Seq (Repeat 1 (Some 4) digit_class) more_numbers"

definition parameters :: regex where
  "parameters = Repeat 0 (Some 1) numbers"

definition final_byte :: regex where
  "final_byte =
     Class [Range CHR ''0'' CHR ''9'', Range CHR ''A'' CHR ''O'', Single CHR ''R'',
            Single CHR ''Z'', Single CHR ''c'', Range CHR ''f'' CHR ''n'',
            Single CHR ''q'', Single CHR ''r'', Single CHR ''y'', Single CHR ''='',
            Single CHR ''>'', Single CHR ''<'']"

definition ansi_pattern :: regex where
  "ansi_pattern = Seq introducer (Seq intermediates (Seq parameters final_byte))"

text \<open>The payload of an event of the stream \<^verbatim>\<open>log://log\<close>.\<close>

record LogEvent =
  ev_message :: string
  ev_level :: jsval

text \<open>A method of \<^verbatim>\<open>console\<close>: one line on its channel.\<close>

definition console_write :: "channel \<Rightarrow> string \<Rightarrow> jsval async" where
  "console_write ch s w = (Inr Undefined, w\<lparr>console := console w @ [(ch, s)]\<rparr>)"

text \<open>
  The callback \<^verbatim>\<open>attachConsole\<close> passes to \<^verbatim>\<open>listen\<close>: it strips the escape codes, then
  the \<^verbatim>\<open>switch\<close> compares the level with the members of \<^verbatim>\<open>LogLevel\<close> in the source's order.
\<close>

definition console_handler :: "LogEvent \<Rightarrow> jsval async" where
  "console_handler payload w =
     (let msg = replace_all ansi_pattern [] (ev_message payload) in
      if ev_level payload = get_prop LogLevel ''Trace'' then console_write ConsoleLog msg w
      else if ev_level payload = get_prop LogLevel ''Debug'' then console_write ConsoleDebug msg w
      else if ev_level payload = get_prop LogLevel ''Info'' then console_write ConsoleInfo msg w
      else if ev_level payload = get_prop LogLevel ''Warn'' then console_write ConsoleWarn msg w
      else if ev_level payload = get_prop LogLevel ''Error'' then console_write ConsoleError msg w
      else reject (Error (''unknown log level '' @ to_string (ev_level payload))) w)"

text \<open>
  Modelled from the spec: \<^verbatim>\<open>listen\<close> of the package \<^verbatim>\<open>@tauri-apps/api/event\<close>, which is not
  part of this repository. It subscribes the callback to the named stream and resolves
  with a handle (section 4.2).
\<close>

definition listen :: "string \<Rightarrow> jsval async" where
  "listen name w =
     (Inr (Num (int (length (listeners w)))), w\<lparr>listeners := listeners w @ [name]\<rparr>)"

definition attachConsole :: "jsval async" where
  "attachConsole = await (listen ''log://log'') resolve"

text \<open>
  Modelled from the spec: the delivery of an event by the same package. The callback
  of each subscription to the stream runs once; a callback that throws fails for that
  event only and the subscriptions stay (sections 4.2 and 7). The result lists the
  exceptions thrown.
\<close>

fun deliver :: "string list \<Rightarrow> LogEvent \<Rightarrow> world \<Rightarrow> js_error list \<times> world" where
  "deliver [] ev w = ([], w)"
| "deliver (l # ls) ev w =
     (case console_handler ev w of
        (Inl e, w') \<Rightarrow> (case deliver ls ev w' of (es, w'') \<Rightarrow> (e # es, w''))
      | (Inr _, w') \<Rightarrow> deliver ls ev w')"

definition emit :: "string \<Rightarrow> LogEvent \<Rightarrow> world \<Rightarrow> js_error list \<times> world" where
  "emit name ev w = deliver (filter (\<lambda>l. l = name) (listeners w)) ev w"

fun emit_all :: "(string \<times> LogEvent) list \<Rightarrow> world \<Rightarrow> js_error list \<times> world" where
  "emit_all [] w = ([], w)"
| "emit_all ((name, ev) # rest) w =
     (case emit name ev w of
        (es, w') \<Rightarrow> (case emit_all rest w' of (es', w'') \<Rightarrow> (es @ es', w'')))"

text \<open>A decimal digit, as the class \<^verbatim>\<open>[0-9]\<close> accepts it.\<close>

definition is_digit :: "char \<Rightarrow> bool" where
  "is_digit c = in_class [Range CHR ''0'' CHR ''9''] c"

text \<open>
  Fixtures for the concrete instances: a host that accepts every request, a host that
  cannot be reached, and an empty world.
\<close>

definition accepting_host :: host where
  "accepting_host cmd args w = Inr Null"

definition failing_host :: host where
  "failing_host cmd args w = Inl (Rejected (Str ''host unreachable''))"

definition empty_world :: world where
  "empty_world = \<lparr>heap = Map.empty, sent = [], console = [], listeners = []\<rparr>"

section \<open>Facts about the log emitter\<close>

text \<open>
  \<^verbatim>\<open>split\<close> never returns an empty array, so the destructuring in the filter callback
  always finds a name and the callback never throws.
\<close>

lemma split_acc_not_Nil: "split_acc sep acc s \<noteq> []"
  by (induction s arbitrary: acc) auto

lemma split_js_not_Nil: "split_js sep s \<noteq> []"
  by (simp add: split_js_def split_acc_not_Nil)

lemma usable_frame_Cons:
  "fr \<noteq> [] \<Longrightarrow>
   usable_frame fr = Inr (hd fr \<noteq> [] \<and> \<not> (1 < length fr \<and> fr ! 1 = ''[native code]''))"
  by (cases fr) (auto simp: usable_frame_def split: list.splits)

lemma filter_js_usable:
  "\<forall>fr \<in> set frs. fr \<noteq> [] \<Longrightarrow>
   filter_js usable_frame frs =
     Inr (filter (\<lambda>fr. hd fr \<noteq> [] \<and> \<not> (1 < length fr \<and> fr ! 1 = ''[native code]'')) frs)"
  by (induction frs) (simp_all add: usable_frame_Cons)

lemma filtered_eq:
  "filtered stack =
     Inr (map_option (filter (\<lambda>fr. hd fr \<noteq> [] \<and> \<not> (1 < length fr \<and> fr ! 1 = ''[native code]'')))
            (traces stack))"
proof (cases stack)
  case None
  then show ?thesis by (simp add: filtered_def traces_def)
next
  case (Some s)
  have "\<forall>fr \<in> set (map (split_js CHR ''@'') (split_js (CHR 0x0A) s)). fr \<noteq> []"
    by (simp add: split_js_not_Nil)
  then show ?thesis
    using Some by (simp add: filtered_def traces_def filter_js_usable)
qed

text \<open>
  So \<^verbatim>\<open>log\<close> always reaches \<^verbatim>\<open>invoke\<close>: its outcome is the host's, with \<^verbatim>\<open>undefined\<close> for
  the value, and the world gains the one request.
\<close>

lemma log_eq:
  "log h stack lvl msg opts w =
     (case h ''plugin:log|log''
             (log_request
                (map_option (filter (\<lambda>fr. hd fr \<noteq> [] \<and> \<not> (1 < length fr \<and> fr ! 1 = ''[native code]'')))
                   (traces stack))
                lvl msg (options_object (heap w) opts)) w of
        Inl e \<Rightarrow> Inl e
      | Inr v \<Rightarrow> Inr Undefined,
      w\<lparr>sent := sent w @
         [(''plugin:log|log'',
           log_request
             (map_option (filter (\<lambda>fr. hd fr \<noteq> [] \<and> \<not> (1 < length fr \<and> fr ! 1 = ''[native code]'')))
                (traces stack))
             lvl msg (options_object (heap w) opts))]\<rparr>)"
  by (simp add: log_def filtered_eq await_def invoke_def resolve_def split: sum.splits)

lemma await_log:
  "await (log h stack lvl msg opts) (\<lambda>_. resolve Undefined) = log h stack lvl msg opts"
  by (rule ext) (simp add: await_def log_eq resolve_def split: sum.splits)

lemma LogLevel_names:
  "get_prop LogLevel ''Trace'' = Num 1" "get_prop LogLevel ''Debug'' = Num 2"
  "get_prop LogLevel ''Info'' = Num 3" "get_prop LogLevel ''Warn'' = Num 4"
  "get_prop LogLevel ''Error'' = Num 5"
  by (simp_all add: get_prop_def LogLevel_def enum_member_def to_string_def)

section \<open>Facts about the matcher\<close>

text \<open>
  One step of the replacement, for each outcome of the match at the current position.
\<close>

lemma replace_all_skip:
  "match_at r (c # cs) = None \<Longrightarrow> replace_all r rep (c # cs) = c # replace_all r rep cs"
  by simp

lemma replace_all_hit:
  "match_at r s = Some t \<Longrightarrow> length t < length s \<Longrightarrow> replace_all r rep s = rep @ replace_all r rep t"
  by simp

lemma replace_all_Nil: "match_at r [] = None \<Longrightarrow> replace_all r rep [] = []"
  by simp

declare replace_all.simps [simp del]

declare ends.simps(3) [simp del]

text \<open>
  A match consumes a prefix: every rest is a suffix of the text. So the quantifier's
  test \<open>\<not> length s' < length s\<close> is the standard's test that an iteration consumed
  nothing.
\<close>

lemma ends_suffix: "t \<in> set (ends r s) \<Longrightarrow> \<exists>p. s = p @ t"
proof (induction r s arbitrary: t rule: ends.induct)
  case (1 items s)
  then show ?case by (cases s) (auto split: if_splits)
next
  case (2 a b s)
  from "2.prems" obtain s' where s': "s' \<in> set (ends a s)" "t \<in> set (ends b s')"
    by auto
  from "2.IH"(1)[OF s'(1)] obtain p where "s = p @ s'" by blast
  moreover from "2.IH"(2)[OF s'] obtain q where "s' = q @ t" by blast
  ultimately show ?case by simp
next
  case (3 mn mx a s)
  show ?case
  proof (cases "mx = Some 0")
    case True
    then show ?thesis using "3.prems" by (simp add: ends.simps(3))
  next
    case False
    from "3.prems" False consider
      (iter) s' where "s' \<in> set (ends a s)" "\<not> (mn = 0 \<and> \<not> length s' < length s)"
        "t \<in> set (ends (Repeat (mn - 1) (map_option (\<lambda>n. n - 1) mx) a) s')"
      | (stop) "t = s"
      by (auto simp: ends.simps(3)[of mn mx a s] split: if_splits)
    then show ?thesis
    proof cases
      case iter
      from "3.IH"(1)[OF False iter(1)] obtain p where "s = p @ s'" by blast
      moreover from "3.IH"(2)[OF False iter(1,2,3)] obtain q where "s' = q @ t" by blast
      ultimately show ?thesis by simp
    next
      case stop
      then show ?thesis by simp
    qed
  qed
qed

text \<open>
  The first success of a pattern, from the first successes of its parts.
\<close>

lemma match_at_Class:
  "match_at (Class items) s =
     (case s of [] \<Rightarrow> None | c # cs \<Rightarrow> if in_class items c then Some cs else None)"
  by (simp add: match_at_def split: list.splits)

lemma match_at_Seq:
  "match_at a s = Some t \<Longrightarrow> match_at b t = Some u \<Longrightarrow> match_at (Seq a b) s = Some u"
  by (auto simp: match_at_def split: list.splits)

lemma match_at_Seq_None: "match_at a s = None \<Longrightarrow> match_at (Seq a b) s = None"
  by (auto simp: match_at_def split: list.splits)

lemma match_at_Repeat_done: "match_at (Repeat mn (Some 0) a) s = Some s"
  by (simp add: match_at_def ends.simps(3))

lemma match_at_Repeat_step:
  assumes "mx \<noteq> Some 0" and "match_at a s = Some t" and "length t < length s"
    and "match_at (Repeat (mn - 1) (map_option (\<lambda>n. n - 1) mx) a) t = Some u"
  shows "match_at (Repeat mn mx a) s = Some u"
  using assms by (auto simp: match_at_def ends.simps(3)[of mn mx a s] split: list.splits)

lemma match_at_Repeat_stop:
  assumes "mx \<noteq> Some 0" and "match_at a s = None"
  shows "match_at (Repeat 0 mx a) s = Some s"
  using assms by (auto simp: match_at_def ends.simps(3)[of 0 mx a s] split: list.splits)

lemma match_at_Repeat_fail:
  assumes "mx \<noteq> Some 0" and "match_at a s = None" and "0 < mn"
  shows "match_at (Repeat mn mx a) s = None"
  using assms by (auto simp: match_at_def ends.simps(3)[of mn mx a s] split: list.splits)

text \<open>
  A greedy quantifier over a class takes a whole run of the class's characters when
  the text after the run does not start with one, and the run's length is within the
  bounds.
\<close>

lemma star_class_run:
  assumes "\<forall>c \<in> set xs. in_class items c" and "rest = [] \<or> \<not> in_class items (hd rest)"
  shows "match_at (Repeat 0 None (Class items)) (xs @ rest) = Some rest"
  using assms
proof (induction xs)
  case Nil
  then have "match_at (Class items) rest = None"
    by (cases rest) (auto simp: match_at_Class)
  then show ?case by (simp add: match_at_Repeat_stop)
next
  case (Cons x xs)
  have one: "match_at (Class items) ((x # xs) @ rest) = Some (xs @ rest)"
    using Cons.prems by (simp add: match_at_Class)
  have more: "match_at (Repeat (0 - 1) (map_option (\<lambda>n. n - 1) None) (Class items)) (xs @ rest) = Some rest"
    using Cons by simp
  show ?case
    by (rule match_at_Repeat_step[OF _ one _ more]) simp_all
qed

lemma bounded_class_run:
  assumes "\<forall>c \<in> set xs. in_class items c" and "mn \<le> length xs" and "length xs \<le> mx"
    and "rest = [] \<or> \<not> in_class items (hd rest)"
  shows "match_at (Repeat mn (Some mx) (Class items)) (xs @ rest) = Some rest"
  using assms
proof (induction xs arbitrary: mn mx)
  case Nil
  then have none: "match_at (Class items) rest = None"
    by (cases rest) (auto simp: match_at_Class)
  show ?case
  proof (cases "mx = 0")
    case True
    then show ?thesis by (simp add: match_at_Repeat_done)
  next
    case False
    then show ?thesis using Nil none by (simp add: match_at_Repeat_stop)
  qed
next
  case (Cons x xs)
  have one: "match_at (Class items) ((x # xs) @ rest) = Some (xs @ rest)"
    using Cons.prems by (simp add: match_at_Class)
  have "match_at (Repeat (mn - 1) (Some (mx - 1)) (Class items)) (xs @ rest) = Some rest"
    using Cons.prems by (intro Cons.IH) auto
  then have more: "match_at (Repeat (mn - 1) (map_option (\<lambda>n. n - 1) (Some mx)) (Class items)) (xs @ rest) = Some rest"
    by simp
  have "Some mx \<noteq> Some 0" using Cons.prems by auto
  then show ?case
    by (rule match_at_Repeat_step[OF _ one _ more]) simp
qed

text \<open>
  The pattern on a colour sequence: after the introducer, \<^verbatim>\<open>[\<close> and leading semicolons go
  to the intermediates, the first number to \<^verbatim>\<open>[0-9]{1,4}\<close>, each further number with
  its semicolon to one iteration of \<^verbatim>\<open>(?:;[0-9]{0,4})*\<close>, and \<^verbatim>\<open>m\<close> to the final byte.
  No step backtracks.
\<close>

lemma is_digit_iff: "is_digit c = (48 \<le> (of_char c :: nat) \<and> (of_char c :: nat) \<le> 57)"
  by (simp add: is_digit_def in_class_def)

lemma digit_not_semicolon: "is_digit c \<Longrightarrow> c \<noteq> CHR '';''"
  by (auto simp: is_digit_iff)

lemma digit_not_intermediate:
  "is_digit c \<Longrightarrow>
   \<not> in_class [Single CHR ''['', Single CHR ''('', Single CHR '')'', Single CHR ''#'',
               Single CHR '';'', Single CHR ''?''] c"
  by (auto simp: is_digit_iff in_class_def)

lemma more_numbers_run:
  assumes "\<forall>g \<in> set gs. length g \<le> 4 \<and> (\<forall>c \<in> set g. is_digit c)"
  shows "match_at more_numbers (concat (map (\<lambda>g. CHR '';'' # g) gs) @ CHR ''m'' # post)
           = Some (CHR ''m'' # post)"
  using assms
proof (induction gs)
  case Nil
  have "match_at (Seq (Class [Single CHR '';'']) (Repeat 0 (Some 4) digit_class)) (CHR ''m'' # post) = None"
    by (rule match_at_Seq_None) (simp add: match_at_Class in_class_def)
  then show ?case
    by (simp add: more_numbers_def match_at_Repeat_stop)
next
  case (Cons g gs)
  let ?R = "concat (map (\<lambda>g. CHR '';'' # g) gs) @ CHR ''m'' # post"
  have hdR: "?R = [] \<or> \<not> in_class [Range CHR ''0'' CHR ''9''] (hd ?R)"
    by (cases gs) (simp_all add: in_class_def)
  have g: "length g \<le> 4" "\<forall>c \<in> set g. in_class [Range CHR ''0'' CHR ''9''] c"
    using Cons.prems by (auto simp: is_digit_def)
  have "match_at (Repeat 0 (Some 4) digit_class) (g @ ?R) = Some ?R"
    unfolding digit_class_def by (rule bounded_class_run[OF g(2) _ g(1) hdR]) simp
  moreover have "match_at (Class [Single CHR '';'']) (CHR '';'' # g @ ?R) = Some (g @ ?R)"
    by (simp add: match_at_Class in_class_def)
  ultimately have one:
    "match_at (Seq (Class [Single CHR '';'']) (Repeat 0 (Some 4) digit_class)) (CHR '';'' # g @ ?R) = Some ?R"
    by (rule match_at_Seq[rotated])
  have "match_at more_numbers ?R = Some (CHR ''m'' # post)"
    using Cons by simp
  then have more:
    "match_at (Repeat (0 - 1) (map_option (\<lambda>n. n - 1) None)
        (Seq (Class [Single CHR '';'']) (Repeat 0 (Some 4) digit_class))) ?R = Some (CHR ''m'' # post)"
    by (simp add: more_numbers_def)
  have "match_at more_numbers (CHR '';'' # g @ ?R) = Some (CHR ''m'' # post)"
    unfolding more_numbers_def by (rule match_at_Repeat_step[OF _ one _ more]) simp_all
  then show ?case by simp
qed

lemma numbers_run:
  assumes "g \<noteq> []" "length g \<le> 4" "\<forall>c \<in> set g. is_digit c"
    and "\<forall>g \<in> set gs. length g \<le> 4 \<and> (\<forall>c \<in> set g. is_digit c)"
  shows "match_at numbers (g @ concat (map (\<lambda>g. CHR '';'' # g) gs) @ CHR ''m'' # post)
           = Some (CHR ''m'' # post)"
proof -
  let ?R = "concat (map (\<lambda>g. CHR '';'' # g) gs) @ CHR ''m'' # post"
  have hdR: "?R = [] \<or> \<not> in_class [Range CHR ''0'' CHR ''9''] (hd ?R)"
    by (cases gs) (simp_all add: in_class_def)
  have g: "\<forall>c \<in> set g. in_class [Range CHR ''0'' CHR ''9''] c" "1 \<le> length g"
    using assms by (auto simp: is_digit_def Suc_le_eq)
  have "match_at (Repeat 1 (Some 4) digit_class) (g @ ?R) = Some ?R"
    unfolding digit_class_def by (rule bounded_class_run[OF g(1) g(2) assms(2) hdR])
  then show ?thesis
    unfolding numbers_def by (rule match_at_Seq) (rule more_numbers_run[OF assms(4)])
qed

lemma parameters_some:
  assumes "g \<noteq> []" "length g \<le> 4" "\<forall>c \<in> set g. is_digit c"
    and "\<forall>g \<in> set gs. length g \<le> 4 \<and> (\<forall>c \<in> set g. is_digit c)"
  shows "match_at parameters (g @ concat (map (\<lambda>g. CHR '';'' # g) gs) @ CHR ''m'' # post)
           = Some (CHR ''m'' # post)"
proof -
  have one: "match_at numbers (g @ concat (map (\<lambda>g. CHR '';'' # g) gs) @ CHR ''m'' # post)
           = Some (CHR ''m'' # post)"
    by (rule numbers_run[OF assms])
  have more: "match_at (Repeat (0 - 1) (map_option (\<lambda>n. n - 1) (Some 1)) numbers) (CHR ''m'' # post)
           = Some (CHR ''m'' # post)"
    by (simp add: match_at_Repeat_done)
  show ?thesis
    unfolding parameters_def
    by (rule match_at_Repeat_step[OF _ one _ more]) (use assms(1) in \<open>simp_all add: Suc_le_eq\<close>)
qed

lemma parameters_none: "match_at parameters (CHR ''m'' # post) = Some (CHR ''m'' # post)"
proof -
  have "match_at (Repeat 1 (Some 4) digit_class) (CHR ''m'' # post) = None"
    by (rule match_at_Repeat_fail) (simp_all add: digit_class_def match_at_Class in_class_def)
  then have "match_at numbers (CHR ''m'' # post) = None"
    unfolding numbers_def by (rule match_at_Seq_None)
  then show ?thesis
    unfolding parameters_def by (intro match_at_Repeat_stop) simp_all
qed

lemma final_m: "match_at final_byte (CHR ''m'' # post) = Some post"
  by (simp add: final_byte_def match_at_Class in_class_def)

lemma join_js_Cons: "join_js sep (x # xs) = x @ concat (map (\<lambda>g. sep @ g) xs)"
  by (induction xs arbitrary: x) simp_all

lemma after_introducer_m:
  assumes "\<forall>c \<in> set pre. in_class [Single CHR ''['', Single CHR ''('', Single CHR '')'',
               Single CHR ''#'', Single CHR '';'', Single CHR ''?''] c"
  shows "match_at (Seq intermediates (Seq parameters final_byte)) (pre @ CHR ''m'' # post) = Some post"
proof -
  have "match_at intermediates (pre @ CHR ''m'' # post) = Some (CHR ''m'' # post)"
    unfolding intermediates_def by (rule star_class_run[OF assms]) (simp add: in_class_def)
  moreover have "match_at (Seq parameters final_byte) (CHR ''m'' # post) = Some post"
    by (rule match_at_Seq[OF parameters_none final_m])
  ultimately show ?thesis by (rule match_at_Seq)
qed

lemma after_introducer_numbers:
  assumes "\<forall>c \<in> set pre. in_class [Single CHR ''['', Single CHR ''('', Single CHR '')'',
               Single CHR ''#'', Single CHR '';'', Single CHR ''?''] c"
    and "g \<noteq> []" "length g \<le> 4" "\<forall>c \<in> set g. is_digit c"
    and "\<forall>g \<in> set gs. length g \<le> 4 \<and> (\<forall>c \<in> set g. is_digit c)"
  shows "match_at (Seq intermediates (Seq parameters final_byte))
           (pre @ g @ concat (map (\<lambda>g. CHR '';'' # g) gs) @ CHR ''m'' # post) = Some post"
proof -
  let ?R = "g @ concat (map (\<lambda>g. CHR '';'' # g) gs) @ CHR ''m'' # post"
  have "is_digit (hd g)" using assms(2,4) by (cases g) auto
  then have "?R = [] \<or> \<not> in_class [Single CHR ''['', Single CHR ''('', Single CHR '')'',
               Single CHR ''#'', Single CHR '';'', Single CHR ''?''] (hd ?R)"
    using assms(2) digit_not_intermediate by simp
  then have "match_at intermediates (pre @ ?R) = Some ?R"
    unfolding intermediates_def by (rule star_class_run[OF assms(1)])
  moreover have "match_at (Seq parameters final_byte) ?R = Some post"
    by (rule match_at_Seq[OF parameters_some[OF assms(2-5)] final_m])
  ultimately show ?thesis by (rule match_at_Seq)
qed

lemma after_introducer_groups:
  assumes "\<forall>g \<in> set gs. length g \<le> 4 \<and> (\<forall>c \<in> set g. is_digit c)"
    and "\<forall>c \<in> set pre. in_class [Single CHR ''['', Single CHR ''('', Single CHR '')'',
               Single CHR ''#'', Single CHR '';'', Single CHR ''?''] c"
  shows "match_at (Seq intermediates (Seq parameters final_byte))
           (pre @ concat (map (\<lambda>g. CHR '';'' # g) gs) @ CHR ''m'' # post) = Some post"
  using assms
proof (induction gs arbitrary: pre)
  case Nil
  then show ?case by (simp add: after_introducer_m)
next
  case (Cons g gs)
  have pre': "\<forall>c \<in> set (pre @ [CHR '';'']). in_class [Single CHR ''['', Single CHR ''('',
               Single CHR '')'', Single CHR ''#'', Single CHR '';'', Single CHR ''?''] c"
    using Cons.prems(2) by (simp add: in_class_def)
  have gs: "\<forall>g \<in> set gs. length g \<le> 4 \<and> (\<forall>c \<in> set g. is_digit c)"
    using Cons.prems(1) by simp
  show ?case
  proof (cases "g = []")
    case True
    have "match_at (Seq intermediates (Seq parameters final_byte))
           ((pre @ [CHR '';'']) @ concat (map (\<lambda>g. CHR '';'' # g) gs) @ CHR ''m'' # post) = Some post"
      by (rule Cons.IH[OF gs pre'])
    then show ?thesis using True by simp
  next
    case False
    have "match_at (Seq intermediates (Seq parameters final_byte))
           ((pre @ [CHR '';'']) @ g @ concat (map (\<lambda>g. CHR '';'' # g) gs) @ CHR ''m'' # post) = Some post"
      using Cons.prems(1) by (intro after_introducer_numbers[OF pre' False _ _ gs]) simp_all
    then show ?thesis by simp
  qed
qed

lemma match_at_sgr:
  assumes "\<forall>p \<in> set ps. length p \<le> 4 \<and> (\<forall>c \<in> set p. is_digit c)"
  shows "match_at ansi_pattern (CHR 0x1B # CHR ''['' # join_js '';'' ps @ CHR ''m'' # post) = Some post"
proof -
  have bracket: "\<forall>c \<in> set ''[''. in_class [Single CHR ''['', Single CHR ''('',
               Single CHR '')'', Single CHR ''#'', Single CHR '';'', Single CHR ''?''] c"
    by (simp add: in_class_def)
  have rest: "match_at (Seq intermediates (Seq parameters final_byte))
                (''['' @ join_js '';'' ps @ CHR ''m'' # post) = Some post"
  proof (cases ps)
    case Nil
    then show ?thesis using after_introducer_m[OF bracket] by simp
  next
    case (Cons p qs)
    have qs: "\<forall>g \<in> set qs. length g \<le> 4 \<and> (\<forall>c \<in> set g. is_digit c)"
      using assms Cons by simp
    show ?thesis
    proof (cases "p = []")
      case True
      then show ?thesis
        using after_introducer_groups[OF qs bracket, of post] Cons by (simp add: join_js_Cons)
    next
      case False
      have "match_at (Seq intermediates (Seq parameters final_byte))
              (''['' @ p @ concat (map (\<lambda>g. CHR '';'' # g) qs) @ CHR ''m'' # post) = Some post"
        using assms Cons by (intro after_introducer_numbers[OF bracket False _ _ qs]) simp_all
      then show ?thesis using Cons by (simp add: join_js_Cons)
    qed
  qed
  have "match_at introducer (CHR 0x1B # ''['' @ join_js '';'' ps @ CHR ''m'' # post)
          = Some (''['' @ join_js '';'' ps @ CHR ''m'' # post)"
    by (simp add: introducer_def match_at_Class in_class_def)
  then have "match_at ansi_pattern (CHR 0x1B # ''['' @ join_js '';'' ps @ CHR ''m'' # post) = Some post"
    unfolding ansi_pattern_def using rest by (rule match_at_Seq)
  then show ?thesis by simp
qed

text \<open>
  Text without an introducer is copied; the sequence is dropped.
\<close>

lemma match_at_no_introducer:
  "c \<noteq> CHR 0x1B \<Longrightarrow> c \<noteq> CHR 0x9B \<Longrightarrow> match_at ansi_pattern (c # cs) = None"
  unfolding ansi_pattern_def
  by (rule match_at_Seq_None) (simp add: introducer_def match_at_Class in_class_def)

lemma match_at_ansi_Nil: "match_at ansi_pattern [] = None"
  unfolding ansi_pattern_def
  by (rule match_at_Seq_None) (simp add: introducer_def match_at_Class)

lemma strip_prefix:
  assumes "\<forall>c \<in> set pre. c \<noteq> CHR 0x1B \<and> c \<noteq> CHR 0x9B"
  shows "replace_all ansi_pattern [] (pre @ s) = pre @ replace_all ansi_pattern [] s"
  using assms by (induction pre) (simp_all add: replace_all_skip match_at_no_introducer)

lemma strip_plain:
  assumes "\<forall>c \<in> set s. c \<noteq> CHR 0x1B \<and> c \<noteq> CHR 0x9B"
  shows "replace_all ansi_pattern [] s = s"
  using strip_prefix[OF assms, of "[]"] by (simp add: replace_all_Nil match_at_ansi_Nil)

lemma strip_sgr:
  assumes "\<forall>c \<in> set pre. c \<noteq> CHR 0x1B \<and> c \<noteq> CHR 0x9B"
    and "\<forall>c \<in> set post. c \<noteq> CHR 0x1B \<and> c \<noteq> CHR 0x9B"
    and "\<forall>p \<in> set ps. length p \<le> 4 \<and> (\<forall>c \<in> set p. is_digit c)"
  shows "replace_all ansi_pattern [] (pre @ CHR 0x1B # CHR ''['' # join_js '';'' ps @ CHR ''m'' # post)
           = pre @ post"
proof -
  have "replace_all ansi_pattern [] (CHR 0x1B # CHR ''['' # join_js '';'' ps @ CHR ''m'' # post)
          = [] @ replace_all ansi_pattern [] post"
    by (rule replace_all_hit[OF match_at_sgr[OF assms(3)]]) simp
  then show ?thesis
    by (simp add: strip_prefix[OF assms(1)] strip_plain[OF assms(2)])
qed

section \<open>The claims about the log emitter\<close>

lemma level_function_unfold:
  "trace h stack msg opts = log h stack (Num 1) msg opts"
  "debug h stack msg opts = log h stack (Num 2) msg opts"
  "info h stack msg opts = log h stack (Num 3) msg opts"
  "warn h stack msg opts = log h stack (Num 4) msg opts"
  "error h stack msg opts = log h stack (Num 5) msg opts"
  by (simp_all add: trace_def debug_def info_def warn_def error_def await_log LogLevel_names)

lemma level_function_cases:
  assumes "f \<in> set [trace, debug, info, warn, error]"
  shows "\<exists>lvl. f h stack msg opts = log h stack lvl msg opts"
proof -
  from assms consider "f = trace" | "f = debug" | "f = info" | "f = warn" | "f = error"
    by auto
  then show ?thesis
    by cases (auto simp: level_function_unfold)
qed

lemma options_object_Undefined: "options_object hp Undefined = Map.empty"
  by (simp add: options_object_def)

lemma options_object_Ref: "hp p = Some obj \<Longrightarrow> options_object hp (Ref p) = obj"
  by (simp add: options_object_def)

text \<open>
  Claim C1 as stated fails. A stack whose only frame is \<^verbatim>\<open>foo@[native code]\<close>: the frame is filtered out, no frame
  remains, \<^verbatim>\<open>filtered?.[0]\<close> is \<^verbatim>\<open>undefined\<close> and so is the \<^verbatim>\<open>location\<close> sent. Only the text
  \<^verbatim>\<open>"Error"\<close> is replaced by \<^verbatim>\<open>"webview::unknown"\<close>.
\<close>

theorem empty_stack_location_counterexample:
  "map (location \<circ> snd)
     (sent (snd (log accepting_host (Some ''foo@[native code]'') (Num 3) ''hello'' Undefined
                  empty_world))) = [Undefined]
   \<and> Undefined \<noteq> Str ''webview::unknown''"
  by (simp add: log_eq traces_def split_js_def log_request_def derive_location_def empty_world_def)

text \<open>
  Claim C1, as the code has it: for every captured stack in which every frame is
  filtered out (its name is empty or its location part is \<^verbatim>\<open>[native code]\<close>), the
  \<^verbatim>\<open>location\<close> field of the request built by \<^verbatim>\<open>log\<close> is \<^verbatim>\<open>undefined\<close>; the request is still
  sent.
\<close>

theorem no_usable_frame_location_undefined:
  assumes "\<forall>fr \<in> set (map (split_js CHR ''@'') (split_js (CHR 0x0A) stack)).
             hd fr = [] \<or> (1 < length fr \<and> fr ! 1 = ''[native code]'')"
  shows "map (location \<circ> snd) (sent (snd (log h (Some stack) lvl msg opts w))) =
           map (location \<circ> snd) (sent w) @ [Undefined]"
proof -
  have "filter (\<lambda>fr. hd fr \<noteq> [] \<and> \<not> (1 < length fr \<and> fr ! 1 = ''[native code]''))
          (map (split_js CHR ''@'') (split_js (CHR 0x0A) stack)) = []"
    using assms by (auto simp: filter_empty_conv)
  then show ?thesis
    by (simp add: log_eq traces_def log_request_def derive_location_def)
qed

theorem no_usable_frame_location_undefined_witness:
  "map (split_js CHR ''@'') (split_js (CHR 0x0A) ''foo@[native code]'') = [[''foo'', ''[native code]'']]
   \<and> map (location \<circ> snd)
       (sent (snd (log accepting_host (Some ''foo@[native code]'') (Num 3) ''hello'' Undefined
                    empty_world))) = [Undefined]"
proof -
  have h: "\<forall>fr \<in> set (map (split_js CHR ''@'') (split_js (CHR 0x0A) ''foo@[native code]'')).
       hd fr = [] \<or> (1 < length fr \<and> fr ! 1 = ''[native code]'')"
    by (simp add: split_js_def)
  show ?thesis
    using no_usable_frame_location_undefined[OF h, of accepting_host "Num 3" "''hello''"
        Undefined empty_world]
    by (simp add: empty_world_def split_js_def)
qed

text \<open>
  Claim C2: for each of the five level functions, with its level \<open>L\<close>, and every message
  \<open>M\<close>: a call without options appends exactly one request \<^verbatim>\<open>plugin:log|log\<close> with
  \<^verbatim>\<open>level = L\<close>, \<^verbatim>\<open>message = M\<close> and \<^verbatim>\<open>file\<close>, \<^verbatim>\<open>line\<close>, \<^verbatim>\<open>keyValues\<close> all \<^verbatim>\<open>undefined\<close>; a call with
  an options object appends exactly one request carrying the object's \<^verbatim>\<open>file\<close>, \<^verbatim>\<open>line\<close>
  and \<^verbatim>\<open>keyValues\<close> as they are, \<^verbatim>\<open>undefined\<close> for each property the object does not have.
\<close>

theorem level_function_request:
  assumes "(f, L) \<in> set [(trace, 1), (debug, 2), (info, 3), (warn, 4), (error, 5)]"
  shows "(\<exists>loc. sent (snd (f h stack M Undefined w)) =
            sent w @ [(''plugin:log|log'',
              \<lparr>level = Num L, message = M, location = loc,
               file' = Undefined, line = Undefined, keyValues = Undefined\<rparr>)])
       \<and> (heap w p = Some obj \<longrightarrow>
           (\<exists>loc. sent (snd (f h stack M (Ref p) w)) =
              sent w @ [(''plugin:log|log'',
                \<lparr>level = Num L, message = M, location = loc,
                 file' = (case obj ''file'' of None \<Rightarrow> Undefined | Some v \<Rightarrow> v),
                 line = (case obj ''line'' of None \<Rightarrow> Undefined | Some v \<Rightarrow> v),
                 keyValues = (case obj ''keyValues'' of None \<Rightarrow> Undefined | Some v \<Rightarrow> v)\<rparr>)]))"
proof -
  from assms consider "f = trace \<and> L = 1" | "f = debug \<and> L = 2" | "f = info \<and> L = 3"
    | "f = warn \<and> L = 4" | "f = error \<and> L = 5"
    by auto
  then have f: "f h stack M = log h stack (Num L) M"
    by cases (auto simp: level_function_unfold fun_eq_iff)
  show ?thesis
    unfolding f
    by (simp add: log_eq log_request_def options_object_Undefined options_object_Ref get_prop_def)
qed

theorem level_function_request_witness:
  "sent (snd (warn accepting_host None ''disk full'' Undefined empty_world)) =
     [(''plugin:log|log'',
       \<lparr>level = Num 4, message = ''disk full'', location = Undefined,
        file' = Undefined, line = Undefined, keyValues = Undefined\<rparr>)]
   \<and> sent (snd (warn accepting_host None ''disk full'' (Ref 0)
         (empty_world\<lparr>heap := [0 \<mapsto> [''file'' \<mapsto> Str ''main.js'', ''keyValues'' \<mapsto> Ref 1],
                                1 \<mapsto> [''user'' \<mapsto> Str ''ann'']]\<rparr>))) =
     [(''plugin:log|log'',
       \<lparr>level = Num 4, message = ''disk full'', location = Undefined,
        file' = Str ''main.js'', line = Undefined, keyValues = Ref 1\<rparr>)]"
proof -
  let ?w = "empty_world\<lparr>heap := [0 \<mapsto> [''file'' \<mapsto> Str ''main.js'', ''keyValues'' \<mapsto> Ref 1],
                                1 \<mapsto> [''user'' \<mapsto> Str ''ann'']]\<rparr>"
  have mem: "(warn, 4) \<in> set [(trace, 1), (debug, 2), (info, 3), (warn, 4), (error, 5)]"
    by simp
  have hp: "heap ?w 0 = Some [''file'' \<mapsto> Str ''main.js'', ''keyValues'' \<mapsto> Ref 1]"
    by (simp add: empty_world_def)
  show ?thesis
    using level_function_request[OF mem, of accepting_host None "''disk full''" empty_world]
      level_function_request[OF mem, of accepting_host None "''disk full''" ?w 0
        "[''file'' \<mapsto> Str ''main.js'', ''keyValues'' \<mapsto> Ref 1]"] hp
    by (auto simp: level_function_unfold log_eq traces_def empty_world_def log_request_def
        derive_location_def options_object_def get_prop_def)
qed

text \<open>
  Claim C3: for every captured stack, split at newlines into frames and each frame at
  \<^verbatim>\<open>@\<close>: \<^verbatim>\<open>log\<close> keeps exactly the frames whose name (first part) is not empty and whose
  location (second part) is not \<^verbatim>\<open>[native code]\<close>, without ever throwing; the \<^verbatim>\<open>location\<close>
  it sends is made from the first frame kept, by dropping its empty parts and joining
  the others with \<^verbatim>\<open>@\<close>, and is \<^verbatim>\<open>webview::unknown\<close> when that text is \<^verbatim>\<open>Error\<close>.
\<close>

theorem log_location_from_first_usable_frame:
  "filtered (Some stack) =
     Inr (Some (filter (\<lambda>fr. hd fr \<noteq> [] \<and> \<not> (1 < length fr \<and> fr ! 1 = ''[native code]''))
                  (map (split_js CHR ''@'') (split_js (CHR 0x0A) stack))))
   \<and> map (location \<circ> snd) (sent (snd (log h (Some stack) lvl msg opts w))) =
       map (location \<circ> snd) (sent w) @
         [case filter (\<lambda>fr. hd fr \<noteq> [] \<and> \<not> (1 < length fr \<and> fr ! 1 = ''[native code]''))
                 (map (split_js CHR ''@'') (split_js (CHR 0x0A) stack)) of
            [] \<Rightarrow> Undefined
          | fr # _ \<Rightarrow>
              Str (if join_js ''@'' (filter (\<lambda>v. v \<noteq> []) fr) = ''Error'' then ''webview::unknown''
                   else join_js ''@'' (filter (\<lambda>v. v \<noteq> []) fr))]"
  by (simp add: filtered_eq log_eq traces_def log_request_def derive_location_def Let_def
      split: list.splits)

theorem log_location_from_first_usable_frame_witness:
  "map (location \<circ> snd)
     (sent (snd (log accepting_host
        (Some (''@[native code]'' @ [CHR 0x0A] @ ''run@@app.js:3:9'' @ [CHR 0x0A] @ ''main@app.js:9:1''))
        (Num 3) ''hello'' Undefined empty_world)))
     = [Str ''run@app.js:3:9'']
   \<and> map (location \<circ> snd)
     (sent (snd (log accepting_host (Some (''Error'' @ [CHR 0x0A] @ ''    at run (app.js:3:9)''))
        (Num 3) ''hello'' Undefined empty_world)))
     = [Str ''webview::unknown'']"
  using log_location_from_first_usable_frame[of
      "''@[native code]'' @ [CHR 0x0A] @ ''run@@app.js:3:9'' @ [CHR 0x0A] @ ''main@app.js:9:1''"
      accepting_host "Num 3" "''hello''" Undefined empty_world]
    log_location_from_first_usable_frame[of
      "''Error'' @ [CHR 0x0A] @ ''    at run (app.js:3:9)''"
      accepting_host "Num 3" "''hello''" Undefined empty_world]
  by (simp add: split_js_def empty_world_def)

text \<open>
  Claim C8: for each level function, every message and options, and every captured
  stack (none at all, or one without a usable frame): the call makes exactly one request
  \<^verbatim>\<open>plugin:log|log\<close>; it rejects exactly when that request fails, with the transport's
  reason, and resolves with \<^verbatim>\<open>undefined\<close> when the request succeeds, whatever the host
  answered.
\<close>

theorem level_function_rejects_iff_transport_fails:
  assumes "f \<in> set [trace, debug, info, warn, error]"
  shows "\<exists>r. sent (snd (f h stack msg opts w)) = sent w @ [(''plugin:log|log'', r)]
           \<and> fst (f h stack msg opts w) =
               (case h ''plugin:log|log'' r w of Inl e \<Rightarrow> Inl e | Inr v \<Rightarrow> Inr Undefined)"
proof -
  obtain lvl where "f h stack msg opts = log h stack lvl msg opts"
    using level_function_cases[OF assms] by blast
  then show ?thesis
    by (simp add: log_eq)
qed

theorem level_function_rejects_iff_transport_fails_witness:
  "fst (info failing_host None ''hello'' Undefined empty_world) = Inl (Rejected (Str ''host unreachable''))
   \<and> fst (info accepting_host None ''hello'' Undefined empty_world) = Inr Undefined
   \<and> fst (info accepting_host (Some ''@[native code]'') ''hello'' Undefined empty_world) = Inr Undefined"
proof -
  have mem: "info \<in> set [trace, debug, info, warn, error]" by simp
  show ?thesis
    using level_function_rejects_iff_transport_fails[OF mem, of failing_host None "''hello''"
        Undefined empty_world]
      level_function_rejects_iff_transport_fails[OF mem, of accepting_host None "''hello''"
        Undefined empty_world]
      level_function_rejects_iff_transport_fails[OF mem, of accepting_host "Some ''@[native code]''"
        "''hello''" Undefined empty_world]
    by (auto simp: failing_host_def accepting_host_def)
qed

text \<open>
  Claim C9: each of the five level functions is \<^verbatim>\<open>log\<close> with its level fixed: for every
  message and options, and the same host, captured stack and world, \<^verbatim>\<open>trace\<close> is \<^verbatim>\<open>log\<close> at
  \<^verbatim>\<open>LogLevel.Trace\<close>, and likewise \<^verbatim>\<open>debug\<close>, \<^verbatim>\<open>info\<close>, \<^verbatim>\<open>warn\<close> and \<^verbatim>\<open>error\<close>.
\<close>

theorem level_functions_fix_level:
  "trace h stack msg opts = log h stack (get_prop LogLevel ''Trace'') msg opts
   \<and> debug h stack msg opts = log h stack (get_prop LogLevel ''Debug'') msg opts
   \<and> info h stack msg opts = log h stack (get_prop LogLevel ''Info'') msg opts
   \<and> warn h stack msg opts = log h stack (get_prop LogLevel ''Warn'') msg opts
   \<and> error h stack msg opts = log h stack (get_prop LogLevel ''Error'') msg opts"
  by (simp add: trace_def debug_def info_def warn_def error_def await_log)

text \<open>
  Claim C10: a call of \<^verbatim>\<open>log\<close> or of a level function leaves the store as it was, so the
  caller's options object and the object under its \<^verbatim>\<open>keyValues\<close> keep every property; the
  request carries the message and the object's \<^verbatim>\<open>file\<close>, \<^verbatim>\<open>line\<close> and \<^verbatim>\<open>keyValues\<close> as read, the
  last being the caller's reference itself and no copy.
\<close>

theorem log_leaves_caller_objects:
  assumes "f \<in> set [log h stack lvl, trace h stack, debug h stack, info h stack, warn h stack,
                     error h stack]"
  shows "heap (snd (f msg opts w)) = heap w
       \<and> (\<exists>r. sent (snd (f msg opts w)) = sent w @ [(''plugin:log|log'', r)]
              \<and> message r = msg
              \<and> (heap w p = Some obj \<and> opts = Ref p \<longrightarrow>
                   file' r = get_prop obj ''file'' \<and> line r = get_prop obj ''line''
                   \<and> keyValues r = get_prop obj ''keyValues''))"
proof -
  from assms consider "f = log h stack lvl" | "f = trace h stack" | "f = debug h stack"
    | "f = info h stack" | "f = warn h stack" | "f = error h stack"
    by auto
  then obtain l where "f msg opts = log h stack l msg opts"
    by cases (auto simp: level_function_unfold)
  then show ?thesis
    by (simp add: log_eq log_request_def options_object_def)
qed

theorem log_leaves_caller_objects_witness:
  "heap (snd (error accepting_host None ''x'' (Ref 0)
      (empty_world\<lparr>heap := [0 \<mapsto> [''keyValues'' \<mapsto> Ref 1], 1 \<mapsto> [''user'' \<mapsto> Str ''ann'']]\<rparr>)))
     = [0 \<mapsto> [''keyValues'' \<mapsto> Ref 1], 1 \<mapsto> [''user'' \<mapsto> Str ''ann'']]
   \<and> map (keyValues \<circ> snd) (sent (snd (error accepting_host None ''x'' (Ref 0)
      (empty_world\<lparr>heap := [0 \<mapsto> [''keyValues'' \<mapsto> Ref 1], 1 \<mapsto> [''user'' \<mapsto> Str ''ann'']]\<rparr>))))
     = [Ref 1]"
proof -
  let ?w = "empty_world\<lparr>heap := [0 \<mapsto> [''keyValues'' \<mapsto> Ref 1], 1 \<mapsto> [''user'' \<mapsto> Str ''ann'']]\<rparr>"
  have mem: "error accepting_host None \<in> set [log accepting_host None (Num 5),
      trace accepting_host None, debug accepting_host None, info accepting_host None,
      warn accepting_host None, error accepting_host None]"
    by simp
  have hp: "heap ?w 0 = Some [''keyValues'' \<mapsto> Ref 1]"
    by simp
  show ?thesis
    using log_leaves_caller_objects[OF mem, of "''x''" "Ref 0" ?w 0 "[''keyValues'' \<mapsto> Ref 1]"] hp
    by (auto simp: empty_world_def get_prop_def)
qed

text \<open>
  Claim C7: the number-valued properties of \<^verbatim>\<open>LogLevel\<close> are exactly \<^verbatim>\<open>Trace = 1\<close>,
  \<^verbatim>\<open>Debug = 2\<close>, \<^verbatim>\<open>Info = 3\<close>, \<^verbatim>\<open>Warn = 4\<close> and \<^verbatim>\<open>Error = 5\<close>; its only other properties are
  the five reverse entries from the number's key to the name, which the compiled
  enumeration stores too; and each level function puts the value of its member in the
  \<^verbatim>\<open>level\<close> field of the request.
\<close>

theorem LogLevel_members:
  "(LogLevel k = Some (Num v)) =
     ((k, v) \<in> set [(''Trace'', 1), (''Debug'', 2), (''Info'', 3), (''Warn'', 4), (''Error'', 5)])
   \<and> (LogLevel k = Some (Str n)) =
     ((k, n) \<in> set [(''1'', ''Trace''), (''2'', ''Debug''), (''3'', ''Info''), (''4'', ''Warn''),
                    (''5'', ''Error'')])
   \<and> LogLevel k \<noteq> Some Undefined \<and> LogLevel k \<noteq> Some Null \<and> LogLevel k \<noteq> Some (Ref r)
   \<and> ((f, name) \<in> set [(trace, ''Trace''), (debug, ''Debug''), (info, ''Info''), (warn, ''Warn''),
                         (error, ''Error'')] \<longrightarrow>
        map (level \<circ> snd) (sent (snd (f h stack msg opts w))) =
          map (level \<circ> snd) (sent w) @ [get_prop LogLevel name])"
proof -
  have keys: "to_string (Num 1) = ''1''" "to_string (Num 2) = ''2''" "to_string (Num 3) = ''3''"
    "to_string (Num 4) = ''4''" "to_string (Num 5) = ''5''"
    by code_simp+
  have tbl: "LogLevel =
    map_of [(''5'', Str ''Error''), (''Error'', Num 5), (''4'', Str ''Warn''), (''Warn'', Num 4),
            (''3'', Str ''Info''), (''Info'', Num 3), (''2'', Str ''Debug''), (''Debug'', Num 2),
            (''1'', Str ''Trace''), (''Trace'', Num 1)]"
    by (simp add: LogLevel_def enum_member_def keys)
  have look: "(LogLevel k = Some x) =
    ((k, x) \<in> set [(''5'', Str ''Error''), (''Error'', Num 5), (''4'', Str ''Warn''), (''Warn'', Num 4),
            (''3'', Str ''Info''), (''Info'', Num 3), (''2'', Str ''Debug''), (''Debug'', Num 2),
            (''1'', Str ''Trace''), (''Trace'', Num 1)])" for x
    unfolding tbl by (rule map_of_eq_Some_iff) simp
  have a: "(LogLevel k = Some (Num v)) =
     ((k, v) \<in> set [(''Trace'', 1), (''Debug'', 2), (''Info'', 3), (''Warn'', 4), (''Error'', 5)])"
    unfolding look by auto
  have b: "(LogLevel k = Some (Str n)) =
     ((k, n) \<in> set [(''1'', ''Trace''), (''2'', ''Debug''), (''3'', ''Info''), (''4'', ''Warn''),
                    (''5'', ''Error'')])"
    unfolding look by auto
  have c1: "LogLevel k \<noteq> Some Undefined" and c2: "LogLevel k \<noteq> Some Null"
    and c3: "LogLevel k \<noteq> Some (Ref r)"
    unfolding look by simp_all
  have d: "(f, name) \<in> set [(trace, ''Trace''), (debug, ''Debug''), (info, ''Info''), (warn, ''Warn''),
                         (error, ''Error'')] \<longrightarrow>
        map (level \<circ> snd) (sent (snd (f h stack msg opts w))) =
          map (level \<circ> snd) (sent w) @ [get_prop LogLevel name]"
    by (auto simp: level_function_unfold LogLevel_names log_eq log_request_def)
  show ?thesis
    by (intro conjI) (rule a b c1 c2 c3 d)+
qed

theorem LogLevel_members_witness:
  "LogLevel ''Warn'' = Some (Num 4) \<and> LogLevel ''4'' = Some (Str ''Warn'')
   \<and> LogLevel ''Fatal'' \<noteq> Some (Num 6)
   \<and> map (level \<circ> snd) (sent (snd (warn accepting_host None ''x'' Undefined empty_world))) = [Num 4]"
  using LogLevel_members[of "''Warn''" 4 "''Warn''" 0 warn "''Warn''" accepting_host None "''x''"
      Undefined empty_world]
    LogLevel_members[of "''4''" 4 "''Warn''" 0] LogLevel_members[of "''Fatal''" 6]
  by (simp add: LogLevel_names empty_world_def)

section \<open>The claims about the console attacher\<close>

lemma console_handler_unknown:
  assumes "ev_level ev \<notin> set (map (get_prop LogLevel) [''Trace'', ''Debug'', ''Info'', ''Warn'', ''Error''])"
  shows "console_handler ev w = (Inl (Error (''unknown log level '' @ to_string (ev_level ev))), w)"
  using assms by (simp add: console_handler_def reject_def Let_def)

lemma deliver_unknown:
  assumes "ev_level ev \<notin> set (map (get_prop LogLevel) [''Trace'', ''Debug'', ''Info'', ''Warn'', ''Error''])"
  shows "deliver ls ev w =
           (replicate (length ls) (Error (''unknown log level '' @ to_string (ev_level ev))), w)"
  by (induction ls) (simp_all add: console_handler_unknown[OF assms])

text \<open>
  Claim C4: for every event whose level is a member of \<^verbatim>\<open>LogLevel\<close>, the handler writes
  the sanitized message once, to the channel of that level: \<^verbatim>\<open>console.log\<close> for Trace,
  \<^verbatim>\<open>console.debug\<close> for Debug, \<^verbatim>\<open>console.info\<close> for Info, \<^verbatim>\<open>console.warn\<close> for Warn and
  \<^verbatim>\<open>console.error\<close> for Error; nothing else of the world changes.
\<close>

theorem console_handler_routes_by_level:
  assumes "(name, ch) \<in> set [(''Trace'', ConsoleLog), (''Debug'', ConsoleDebug),
             (''Info'', ConsoleInfo), (''Warn'', ConsoleWarn), (''Error'', ConsoleError)]"
    and "ev_level ev = get_prop LogLevel name"
  shows "console_handler ev w =
           (Inr Undefined,
            w\<lparr>console := console w @ [(ch, replace_all ansi_pattern [] (ev_message ev))]\<rparr>)"
  using assms
  by (auto simp: console_handler_def console_write_def LogLevel_names Let_def)

theorem console_handler_routes_by_level_witness:
  "console_handler \<lparr>ev_message = ''low disk'', ev_level = Num 4\<rparr> empty_world =
     (Inr Undefined, empty_world\<lparr>console := [(ConsoleWarn, ''low disk'')]\<rparr>)"
proof -
  have mem: "(''Warn'', ConsoleWarn) \<in> set [(''Trace'', ConsoleLog), (''Debug'', ConsoleDebug),
             (''Info'', ConsoleInfo), (''Warn'', ConsoleWarn), (''Error'', ConsoleError)]"
    by simp
  have lvl: "ev_level \<lparr>ev_message = ''low disk'', ev_level = Num 4\<rparr> = get_prop LogLevel ''Warn''"
    by (simp add: LogLevel_names)
  have plain: "replace_all ansi_pattern [] ''low disk'' = ''low disk''"
    by (rule strip_plain) simp
  show ?thesis
    using console_handler_routes_by_level[OF mem lvl, of empty_world]
    by (simp add: plain empty_world_def)
qed

text \<open>
  Claim C5: for every event whose level is none of the five values of \<^verbatim>\<open>LogLevel\<close>, the
  handler throws \<^verbatim>\<open>unknown log level\<close> followed by the level, and leaves the world as it
  was: nothing is written to the console and the subscriptions stay. Delivered through
  the event stream, the event yields that exception once per subscription, and the
  events after it are handled as if it had not come.
\<close>

theorem unknown_level_fails_for_that_event_only:
  assumes "ev_level ev \<notin> set (map (get_prop LogLevel) [''Trace'', ''Debug'', ''Info'', ''Warn'', ''Error''])"
  shows "console_handler ev w = (Inl (Error (''unknown log level '' @ to_string (ev_level ev))), w)
       \<and> snd (emit name ev w) = w
       \<and> snd (emit_all ((name, ev) # later) w) = snd (emit_all later w)
       \<and> fst (emit_all ((name, ev) # later) w) =
           replicate (length (filter (\<lambda>l. l = name) (listeners w)))
             (Error (''unknown log level '' @ to_string (ev_level ev))) @ fst (emit_all later w)"
  by (simp add: console_handler_unknown[OF assms] emit_def deliver_unknown[OF assms]
      split: prod.splits)

theorem unknown_level_fails_for_that_event_only_witness:
  "console_handler \<lparr>ev_message = ''boom'', ev_level = Num 99\<rparr>
      (empty_world\<lparr>listeners := [''log://log'']\<rparr>)
     = (Inl (Error ''unknown log level 99''), empty_world\<lparr>listeners := [''log://log'']\<rparr>)
   \<and> emit_all [(''log://log'', \<lparr>ev_message = ''boom'', ev_level = Num 99\<rparr>),
                (''log://log'', \<lparr>ev_message = ''late'', ev_level = Num 5\<rparr>)]
        (empty_world\<lparr>listeners := [''log://log'']\<rparr>)
     = ([Error ''unknown log level 99''],
        empty_world\<lparr>listeners := [''log://log''], console := [(ConsoleError, ''late'')]\<rparr>)"
proof -
  let ?ev = "\<lparr>ev_message = ''boom'', ev_level = Num 99\<rparr>"
  let ?w = "empty_world\<lparr>listeners := [''log://log'']\<rparr>"
  have h: "ev_level ?ev \<notin> set (map (get_prop LogLevel) [''Trace'', ''Debug'', ''Info'', ''Warn'', ''Error''])"
    by (simp add: LogLevel_names)
  have plain: "replace_all ansi_pattern [] ''late'' = ''late''"
    by (rule strip_plain) simp
  have n99: "to_string (Num 99) = ''99''"
    by code_simp
  show ?thesis
    using unknown_level_fails_for_that_event_only[OF h, of ?w "''log://log''"
        "[(''log://log'', \<lparr>ev_message = ''late'', ev_level = Num 5\<rparr>)]"]
    by (simp add: n99 prod_eq_iff empty_world_def emit_def console_handler_def console_write_def
        LogLevel_names plain reject_def)
qed

text \<open>
  Claim C6 as stated fails. The sequence \<^verbatim>\<open>ESC [ 12345 m\<close> has the form of a colour sequence, with one parameter of
  five digits. The pattern takes at most four digits for a number and then any final
  byte, a digit being one: it matches \<^verbatim>\<open>ESC [ 12345\<close> and leaves the \<^verbatim>\<open>m\<close> in the text.
\<close>

theorem sgr_long_parameter_counterexample:
  "replace_all ansi_pattern [] (''ab'' @ CHR 0x1B # ''[12345m'' @ ''cd'') = ''abmcd''
   \<and> ''abmcd'' \<noteq> ''abcd''"
  by code_simp

text \<open>
  Claim C6, as the code has it: stripping is the identity on every message without the
  characters U+001B and U+009B; and for a message made of text without these
  characters, one sequence \<^verbatim>\<open>ESC [\<close>, parameters, \<^verbatim>\<open>m\<close>, and more such text, where the
  parameters are numbers of at most four decimal digits each (possibly empty) separated
  by \<^verbatim>\<open>;\<close>, the result is the text before followed by the text after.
\<close>

theorem strip_ansi_plain_and_sgr:
  "((\<forall>c \<in> set s. c \<noteq> CHR 0x1B \<and> c \<noteq> CHR 0x9B) \<longrightarrow> replace_all ansi_pattern [] s = s)
   \<and> ((\<forall>c \<in> set pre. c \<noteq> CHR 0x1B \<and> c \<noteq> CHR 0x9B) \<and>
       (\<forall>c \<in> set post. c \<noteq> CHR 0x1B \<and> c \<noteq> CHR 0x9B) \<and>
       (\<forall>p \<in> set ps. length p \<le> 4 \<and> (\<forall>c \<in> set p. is_digit c)) \<longrightarrow>
       replace_all ansi_pattern []
         (pre @ CHR 0x1B # CHR ''['' # join_js '';'' ps @ CHR ''m'' # post) = pre @ post)"
proof (intro conjI impI)
  assume "\<forall>c \<in> set s. c \<noteq> CHR 0x1B \<and> c \<noteq> CHR 0x9B"
  then show "replace_all ansi_pattern [] s = s"
    by (rule strip_plain)
next
  assume h: "(\<forall>c \<in> set pre. c \<noteq> CHR 0x1B \<and> c \<noteq> CHR 0x9B) \<and>
       (\<forall>c \<in> set post. c \<noteq> CHR 0x1B \<and> c \<noteq> CHR 0x9B) \<and>
       (\<forall>p \<in> set ps. length p \<le> 4 \<and> (\<forall>c \<in> set p. is_digit c))"
  show "replace_all ansi_pattern []
         (pre @ CHR 0x1B # CHR ''['' # join_js '';'' ps @ CHR ''m'' # post) = pre @ post"
    by (rule strip_sgr[OF conjunct1[OF h] conjunct1[OF conjunct2[OF h]]
          conjunct2[OF conjunct2[OF h]]])
qed

theorem strip_ansi_plain_and_sgr_witness:
  "replace_all ansi_pattern [] ''plain text'' = ''plain text''
   \<and> replace_all ansi_pattern [] (''ab'' @ CHR 0x1B # ''[1;31m'' @ ''cd'') = ''abcd''"
proof -
  have d: "\<forall>p \<in> set [''1'', ''31'']. length p \<le> 4 \<and> (\<forall>c \<in> set p. is_digit c)"
    by (simp add: is_digit_iff)
  show ?thesis
    using strip_ansi_plain_and_sgr[of "''plain text''" "''ab''" "''cd''" "[''1'', ''31'']"] d
    by simp
qed

end
